theory Spec2Isabelle
  imports Main "HOL-Library.AList"
begin

section \<open>Data model of \<open>patch_catss.py\<close>\<close>

text \<open>
  The corpus \<open>file2lines\<close> is a Python dict from file name to the list of the file's lines.
  A dict iterates in insertion order and its keys are distinct, so it is an association
  list here; \<open>file2lines[k] = v\<close> on a key that is present keeps the key's position
  (\<open>AList.update\<close>). Lines are strings; the column delimiter is the tab character.
\<close>

type_synonym line = string
type_synonym corpus = "(string \<times> line list) list"

abbreviation tab :: char where "tab \<equiv> CHR 0x09"

text \<open>The exceptions the function can raise from its own indexing and attribute access.\<close>

datatype error = KeyError | IndexError | AttributeError

text \<open>
  \<open>report(msg)\<close> appends \<open>msg\<close> and a newline to the log. One entry of the log below is
  one call of \<open>report\<close>: the constructor is the format string of the call and its
  arguments are the values that the f-string interpolates, in the order of the source.
\<close>

datatype log_entry =
    Msg string
  | Correction string nat
  | Old line
  | New line
  | EditRec string nat string string
  | Patching string nat "line option" line line line
  | Normalization string line

type_synonym log = "log_entry list"

section \<open>The reference pattern\<close>

definition is_digit :: "char \<Rightarrow> bool" where
  "is_digit c = (48 \<le> (of_char c :: nat) \<and> (of_char c :: nat) \<le> 57)"

definition is_alnum :: "char \<Rightarrow> bool" where
  "is_alnum c =
     (is_digit c \<or> (97 \<le> (of_char c :: nat) \<and> (of_char c :: nat) \<le> 122)
                \<or> (65 \<le> (of_char c :: nat) \<and> (of_char c :: nat) \<le> 90))"

text \<open>
  Modelled from the spec: the compiled pattern \<open>ref_string\<close> is imported from the module
  \<open>regex_patterns\<close>, which is not part of the sources at hand. The functions below take
  the test \<open>ref_string.match(line)\<close> as the parameter \<open>isref\<close>, so every general theorem
  holds for whatever the pattern is. For closed examples the pattern is the one the spec
  describes: a line-start pattern for book/chapter/verse citations such as
  \<open>Ps 18:40\<close> and \<open>Exod 1:10\<close>: a book name of letters and digits, a blank, the chapter
  number, a colon and the verse number, matched at the start of the line.
\<close>

definition ref_string_match :: "line \<Rightarrow> bool" where
  "ref_string_match l =
     (let book = takeWhile is_alnum l; r1 = dropWhile is_alnum l in
      book \<noteq> [] \<and>
      (case r1 of
         [] \<Rightarrow> False
       | c # r2 \<Rightarrow>
           c = CHR '' '' \<and>
           (let chapter = takeWhile is_digit r2; r3 = dropWhile is_digit r2 in
            chapter \<noteq> [] \<and>
            (case r3 of
               [] \<Rightarrow> False
             | d # r4 \<Rightarrow> d = CHR '':'' \<and> takeWhile is_digit r4 \<noteq> []))))"


section \<open>Manual edits (lines 35--72)\<close>




abbreviation apostrophe :: char where "apostrophe \<equiv> CHR 0x27"



section \<open>Block excisions (lines 93--125)\<close>

text \<open>
  Python slices never raise (\<open>xs[:n]\<close> is \<open>take n xs\<close>, \<open>xs[n:]\<close> is \<open>drop n xs\<close>);
  indexing raises IndexError beyond the end.
\<close>

definition exodus_repair :: "corpus \<Rightarrow> log \<Rightarrow> error + (corpus \<times> log)" where
  "exodus_repair file2lines lg =
     (case map_of file2lines ''02.Exodus.par'' of
        None \<Rightarrow> Inl KeyError
      | Some exod \<Rightarrow>
          if \<not> 16284 < length exod then Inl IndexError
          else if exod ! 16284 = ''Exod 1:10'' then
            (if \<not> 16285 < length exod then Inl IndexError
             else Inr (AList.update ''02.Exodus.par''
                         (take 16283 exod @ [exod ! 16285] @ drop 16288 exod) file2lines,
                       lg @ [Msg ''patching corrupt lines 16283-16289 in 02.Exodus.par...'',
                             Msg (tab # ''done'')]))
          else
            Inr (file2lines,
                 lg @ [Msg ''**WARNING: SKIPPING EXODUS CORRUPTION REPAIR DUE TO CHANGED LINE NUMBERS; see code'']))"

text \<open>
  The two repairs of the Psalms file both read the variable \<open>pss\<close>, which line 108 binds
  once to the list that \<open>file2lines['20.Psalms.par']\<close> holds at that moment. The repairs
  assign new lists to the dict entry; \<open>pss\<close> keeps naming the list read at line 108. It
  is therefore an argument of both repairs.
\<close>

definition psalms_orphan_repair :: "line list \<Rightarrow> corpus \<Rightarrow> log \<Rightarrow> error + (corpus \<times> log)" where
  "psalms_orphan_repair pss file2lines lg =
     (if \<not> 10848 < length pss then Inl IndexError
      else if pss ! 10848 = ''MTR'' then
        (if \<not> 10850 < length pss then Inl IndexError
         else
           (let ps68_31_patch = [pss ! 10848 @ pss ! 10849 @ pss ! 10850] in
            Inr (AList.update ''20.Psalms.par''
                   (take 10848 pss @ ps68_31_patch @ drop 10851 pss) file2lines,
                 lg @ [Msg ''patching double-orphaned lines in lines 10849-10851 of 20.Psalms.par (Ps 68:31)'',
                       Msg (tab # ''done'')])))
      else
        Inr (file2lines,
             lg @ [Msg ''**WARNING: SKIPPING PSALMS ORPHAN REPAIR DUE TO CHANGED LINE NUMBERS; see code'']))"

definition psalms_corruption_repair :: "line list \<Rightarrow> corpus \<Rightarrow> log \<Rightarrow> error + (corpus \<times> log)" where
  "psalms_corruption_repair pss file2lines lg =
     (if \<not> 2459 < length pss then Inl IndexError
      else if pss ! 2459 = ''Ps 18:40'' then
        Inr (AList.update ''20.Psalms.par''
               (take 2456 pss @ [pss ! 2457] @ drop 2460 pss) file2lines,
             lg @ [Msg ''patching corrupt lines 2457-2461 in 20.Psalms.par...'',
                   Msg (tab # ''done'')])
      else
        Inr (file2lines,
             lg @ [Msg ''**WARNING: SKIPPING PSALMS ORPHAN REPAIR #2 DUE TO CHANGED LINE NUMBERS; see code'']))"

definition other_edits :: "corpus \<Rightarrow> log \<Rightarrow> error + (corpus \<times> log)" where
  "other_edits file2lines lg =
     (case exodus_repair file2lines lg of
        Inl e \<Rightarrow> Inl e
      | Inr (c1, lg1) \<Rightarrow>
          (case map_of c1 ''20.Psalms.par'' of
             None \<Rightarrow> Inl KeyError
           | Some pss \<Rightarrow>
               (case psalms_orphan_repair pss c1 lg1 of
                  Inl e \<Rightarrow> Inl e
                | Inr (c2, lg2) \<Rightarrow> psalms_corruption_repair pss c2 lg2)))"

section \<open>Repair of orphaned lines (lines 153--196)\<close>

text \<open>
  The second branch of the scan: \<open>elif line and '\t' not in line\<close>, reached only when the
  line is not a reference line.
\<close>

definition lacks_tab :: "line \<Rightarrow> bool" where
  "lacks_tab l = (l \<noteq> [] \<and> tab \<notin> set l)"

definition orphan :: "(line \<Rightarrow> bool) \<Rightarrow> line \<Rightarrow> bool" where
  "orphan isref l = (\<not> isref l \<and> lacks_tab l)"

definition startswith_Ps :: "line \<Rightarrow> bool" where
  "startswith_Ps v = (take 2 v = ''Ps'')"

text \<open>
  \<open>lines[i-1]\<close> in the log message: at \<open>i = 0\<close> Python reads \<open>lines[-1]\<close>, the last line.
\<close>

definition line_before :: "line list \<Rightarrow> nat \<Rightarrow> line" where
  "line_before lines i = (if i = 0 then lines ! (length lines - 1) else lines ! (i - 1))"

text \<open>
  The \<open>while i < len(lines)\<close> loop over one file. The state is the position \<open>i\<close>, the
  variable \<open>current_verse\<close> (\<open>None\<close> until a reference line has been seen), the list
  \<open>filtered_lines\<close> and the log. The message of the orphan branch reads \<open>lines[i+1]\<close>
  before anything else happens (IndexError on the last line); \<open>current_verse.startswith\<close>
  raises AttributeError on \<open>None\<close>; \<open>filtered_lines[-1]\<close> raises IndexError on the empty
  list.
\<close>

function orphan_loop ::
  "(line \<Rightarrow> bool) \<Rightarrow> string \<Rightarrow> line list \<Rightarrow> nat \<Rightarrow> line option \<Rightarrow> line list \<Rightarrow> log
     \<Rightarrow> error + (line option \<times> line list \<times> log)" where
  "orphan_loop isref file lines i current_verse filtered_lines lg =
     (if i < length lines then
        (let line = lines ! i in
         if isref line then
           orphan_loop isref file lines (i + 1) (Some line) (filtered_lines @ [line]) lg
         else if lacks_tab line then
           (if i + 1 < length lines then
              (let lg' = lg @ [Patching file i current_verse
                                 (line_before lines i) line (lines ! (i + 1))] in
               case current_verse of
                 None \<Rightarrow> Inl AttributeError
               | Some v \<Rightarrow>
                   if startswith_Ps v then
                     orphan_loop isref file lines (i + 2) current_verse
                       (filtered_lines @ [line @ lines ! (i + 1)]) lg'
                   else if filtered_lines = [] then Inl IndexError
                   else
                     orphan_loop isref file lines (i + 1) current_verse
                       (butlast filtered_lines @ [last filtered_lines @ line]) lg')
            else Inl IndexError)
         else
           orphan_loop isref file lines (i + 1) current_verse (filtered_lines @ [line]) lg)
      else Inr (current_verse, filtered_lines, lg))"
  by pat_completeness auto
termination
  by (relation "measure (\<lambda>(isref, file, lines, i, cv, out, lg). length lines - i)") auto

declare orphan_loop.simps [simp del]

text \<open>
  The \<open>for file, lines in file2lines.items()\<close> loop: \<open>current_verse\<close> is set to \<open>None\<close>
  once, before the loop, and is carried from one file to the next; each file's entry is
  replaced by its \<open>filtered_lines\<close>.
\<close>

fun orphan_files ::
  "(line \<Rightarrow> bool) \<Rightarrow> corpus \<Rightarrow> line option \<Rightarrow> log \<Rightarrow> error + (line option \<times> corpus \<times> log)" where
  "orphan_files isref [] current_verse lg = Inr (current_verse, [], lg)"
| "orphan_files isref ((file, lines) # rest) current_verse lg =
     (case orphan_loop isref file lines 0 current_verse [] lg of
        Inl e \<Rightarrow> Inl e
      | Inr (cv, filtered_lines, lg') \<Rightarrow>
          (case orphan_files isref rest cv lg' of
             Inl e \<Rightarrow> Inl e
           | Inr (cv', rest', lg'') \<Rightarrow> Inr (cv', (file, filtered_lines) # rest', lg'')))"

definition repair_orphans :: "(line \<Rightarrow> bool) \<Rightarrow> corpus \<Rightarrow> log \<Rightarrow> error + (corpus \<times> log)" where
  "repair_orphans isref file2lines lg =
     (case orphan_files isref file2lines None
             (lg @ [Msg ''patching orphaned lines (see code for description)...'']) of
        Inl e \<Rightarrow> Inl e
      | Inr (cv, file2lines', lg') \<Rightarrow> Inr (file2lines', lg' @ [Msg (tab # ''done'')]))"


text \<open>
  The third branch of the scan (\<open>else\<close>): a line that is neither a reference line nor
  an orphan (a data line with a tab, or an empty line) is appended unchanged.
\<close>

definition passes :: "(line \<Rightarrow> bool) \<Rightarrow> line \<Rightarrow> bool" where
  "passes isref l = (\<not> isref l \<and> \<not> lacks_tab l)"

text \<open>
  The reference line that a scan without merges leaves in \<open>current_verse\<close>: the last
  reference line of the lines, or the incoming context when there is none.
\<close>

fun last_ref :: "(line \<Rightarrow> bool) \<Rightarrow> line option \<Rightarrow> line list \<Rightarrow> line option" where
  "last_ref isref cv [] = cv"
| "last_ref isref cv (l # ls) = last_ref isref (if isref l then Some l else cv) ls"


section \<open>Bulk normalizations (lines 207--242)\<close>

text \<open>
  The two entries of \<open>normalizations\<close>. For the compiled pattern \<open>~\<close>, \<open>findall\<close> is
  non-empty when the line holds a tilde and \<open>sub\<close> with \<open>^\<close> replaces every tilde. For
  \<open>(['^])=\<close>, a match is an apostrophe or a caret directly followed by \<open>=\<close>;
  \<open>sub\<close> with \<open>\g<1> =\<close> scans from the left, rewrites a match to its first character,
  a blank and \<open>=\<close>, and goes on behind the match.
\<close>

definition findall_tilde :: "line \<Rightarrow> bool" where
  "findall_tilde l = (CHR ''~'' \<in> set l)"

definition sub_tilde :: "line \<Rightarrow> line" where
  "sub_tilde l = map (\<lambda>c. if c = CHR ''~'' then CHR ''^'' else c) l"

definition quote_or_caret :: "char \<Rightarrow> bool" where
  "quote_or_caret c = (c = apostrophe \<or> c = CHR ''^'')"

fun findall_fused :: "line \<Rightarrow> bool" where
  "findall_fused (a # b # rest) =
     ((quote_or_caret a \<and> b = CHR ''='') \<or> findall_fused (b # rest))"
| "findall_fused l = False"

fun sub_fused :: "line \<Rightarrow> line" where
  "sub_fused (a # b # rest) =
     (if quote_or_caret a \<and> b = CHR ''='' then a # CHR '' '' # CHR ''='' # sub_fused rest
      else a # sub_fused (b # rest))"
| "sub_fused l = l"

definition normalizations :: "((line \<Rightarrow> bool) \<times> (line \<Rightarrow> line)) list" where
  "normalizations = [(findall_tilde, sub_tilde), (findall_fused, sub_fused)]"

text \<open>
  The loop over the lines of one file for one pattern. The reference test is an \<open>if\<close>
  of its own that appends the line; the substitution test that follows is a second
  \<open>if\<close>/\<open>else\<close>, which appends the line or its redaction in every case.
\<close>

fun normalize_lines ::
  "(line \<Rightarrow> bool) \<Rightarrow> (line \<Rightarrow> bool) \<Rightarrow> (line \<Rightarrow> line) \<Rightarrow> string \<Rightarrow> line list \<Rightarrow> line
     \<Rightarrow> line list \<Rightarrow> log \<Rightarrow> line list \<times> log" where
  "normalize_lines isref findall sub file [] curr_verse new_lines lg = (new_lines, lg)"
| "normalize_lines isref findall sub file (line # rest) curr_verse new_lines lg =
     (let curr_verse' = (if isref line then line else curr_verse);
          new_lines' = (if isref line then new_lines @ [line] else new_lines) in
      if findall line then
        (let redaction = sub line in
         normalize_lines isref findall sub file rest curr_verse' (new_lines' @ [redaction])
           (lg @ [Normalization file curr_verse', Old line, New redaction]))
      else
        normalize_lines isref findall sub file rest curr_verse' (new_lines' @ [line]) lg)"

fun normalize_files ::
  "(line \<Rightarrow> bool) \<Rightarrow> (line \<Rightarrow> bool) \<Rightarrow> (line \<Rightarrow> line) \<Rightarrow> corpus \<Rightarrow> log \<Rightarrow> corpus \<times> log" where
  "normalize_files isref findall sub [] lg = ([], lg)"
| "normalize_files isref findall sub ((file, lines) # rest) lg =
     (let (new_lines, lg') = normalize_lines isref findall sub file lines [] [] lg;
          (rest', lg'') = normalize_files isref findall sub rest lg'
      in ((file, new_lines) # rest', lg''))"

text \<open>The outer loop: one pass over the whole corpus for each pattern, in list order.\<close>

fun bulk_normalize ::
  "(line \<Rightarrow> bool) \<Rightarrow> ((line \<Rightarrow> bool) \<times> (line \<Rightarrow> line)) list \<Rightarrow> corpus \<Rightarrow> log \<Rightarrow> corpus \<times> log" where
  "bulk_normalize isref [] file2lines lg = (file2lines, lg)"
| "bulk_normalize isref ((findall, sub) # rules) file2lines lg =
     (let (file2lines', lg') = normalize_files isref findall sub file2lines lg
      in bulk_normalize isref rules file2lines' lg')"

text \<open>
  What one iteration of the normalizer's loop appends to \<open>new_lines\<close> for a line: the
  line itself when it is a reference line, and then the line or its redaction.
\<close>

definition emitted :: "(line \<Rightarrow> bool) \<Rightarrow> (line \<Rightarrow> bool) \<Rightarrow> (line \<Rightarrow> line) \<Rightarrow> line \<Rightarrow> line list" where
  "emitted isref findall sub l =
     (if isref l then [l] else []) @ [if findall l then sub l else l]"


section \<open>The pipeline\<close>


section \<open>The orphan scan, one iteration at a time\<close>

lemma loop_done:
  "length lines \<le> i \<Longrightarrow> orphan_loop isref file lines i cv out lg = Inr (cv, out, lg)"
  by (subst orphan_loop.simps) (simp add: Let_def)

lemma loop_ref:
  "i < length lines \<Longrightarrow> isref (lines ! i) \<Longrightarrow>
   orphan_loop isref file lines i cv out lg =
   orphan_loop isref file lines (Suc i) (Some (lines ! i)) (out @ [lines ! i]) lg"
  by (subst orphan_loop.simps) (simp add: Let_def)

lemma loop_plain:
  "i < length lines \<Longrightarrow> \<not> isref (lines ! i) \<Longrightarrow> \<not> lacks_tab (lines ! i) \<Longrightarrow>
   orphan_loop isref file lines i cv out lg =
   orphan_loop isref file lines (Suc i) cv (out @ [lines ! i]) lg"
  by (subst orphan_loop.simps) (simp add: Let_def)

lemma loop_orphan_last:
  "Suc i = length lines \<Longrightarrow> orphan isref (lines ! i) \<Longrightarrow>
   orphan_loop isref file lines i cv out lg = Inl IndexError"
  by (subst orphan_loop.simps) (auto simp: orphan_def Let_def)

lemma loop_orphan_None:
  "Suc i < length lines \<Longrightarrow> orphan isref (lines ! i) \<Longrightarrow>
   orphan_loop isref file lines i None out lg = Inl AttributeError"
  by (subst orphan_loop.simps) (simp add: orphan_def Let_def)

lemma loop_orphan_down:
  "Suc i < length lines \<Longrightarrow> orphan isref (lines ! i) \<Longrightarrow> startswith_Ps v \<Longrightarrow>
   orphan_loop isref file lines i (Some v) out lg =
   orphan_loop isref file lines (Suc (Suc i)) (Some v) (out @ [lines ! i @ lines ! Suc i])
     (lg @ [Patching file i (Some v) (line_before lines i) (lines ! i) (lines ! Suc i)])"
  by (subst orphan_loop.simps) (simp add: orphan_def Let_def)

lemma loop_orphan_up:
  "Suc i < length lines \<Longrightarrow> orphan isref (lines ! i) \<Longrightarrow> \<not> startswith_Ps v \<Longrightarrow> out \<noteq> [] \<Longrightarrow>
   orphan_loop isref file lines i (Some v) out lg =
   orphan_loop isref file lines (Suc i) (Some v) (butlast out @ [last out @ lines ! i])
     (lg @ [Patching file i (Some v) (line_before lines i) (lines ! i) (lines ! Suc i)])"
  by (subst orphan_loop.simps) (simp add: orphan_def Let_def)

lemma loop_orphan_up_empty:
  "Suc i < length lines \<Longrightarrow> orphan isref (lines ! i) \<Longrightarrow> \<not> startswith_Ps v \<Longrightarrow>
   orphan_loop isref file lines i (Some v) [] lg = Inl IndexError"
  by (subst orphan_loop.simps) (simp add: orphan_def Let_def)


lemma loop_skip_passes:
  "\<forall>l\<in>set pre. passes isref l \<Longrightarrow>
   orphan_loop isref file (seen @ pre @ rest) (length seen) cv out lg =
   orphan_loop isref file (seen @ pre @ rest) (length seen + length pre) cv (out @ pre) lg"
proof (induction pre arbitrary: seen out)
  case Nil
  then show ?case by simp
next
  case (Cons p ps)
  have p: "\<not> isref p" "\<not> lacks_tab p" using Cons.prems by (simp_all add: passes_def)
  have "orphan_loop isref file (seen @ (p # ps) @ rest) (length seen) cv out lg =
        orphan_loop isref file (seen @ (p # ps) @ rest) (Suc (length seen)) cv (out @ [p]) lg"
    using p loop_plain [of "length seen" "seen @ (p # ps) @ rest" isref "file" cv out lg] by simp
  also have "\<dots> = orphan_loop isref file ((seen @ [p]) @ ps @ rest) (length (seen @ [p])) cv (out @ [p]) lg"
    by simp
  also have "\<dots> = orphan_loop isref file ((seen @ [p]) @ ps @ rest) (length (seen @ [p]) + length ps) cv
                     ((out @ [p]) @ ps) lg"
    using Cons.prems by (intro Cons.IH) simp
  finally show ?case by simp
qed

lemma orphan_files_append:
  "orphan_files isref (xs @ ys) cv lg =
     (case orphan_files isref xs cv lg of
        Inl e \<Rightarrow> Inl e
      | Inr (cv1, xs', lg1) \<Rightarrow>
          (case orphan_files isref ys cv1 lg1 of
             Inl e \<Rightarrow> Inl e
           | Inr (cv2, ys', lg2) \<Rightarrow> Inr (cv2, xs' @ ys', lg2)))"
  by (induction xs arbitrary: cv lg) (auto split: sum.splits prod.splits)


lemma last_ref_filter:
  "last_ref isref cv ls = (if filter isref ls = [] then cv else Some (last (filter isref ls)))"
  by (induction ls arbitrary: cv) auto

lemma loop_context:
  "orphan_loop isref file lines i cv out lg = Inr (cv', out', lg') \<Longrightarrow>
   (\<forall>j. Suc j < length lines \<and> orphan isref (lines ! j) \<longrightarrow> \<not> isref (lines ! Suc j)) \<Longrightarrow>
   cv' = last_ref isref cv (drop i lines)"
proof (induction isref "file" lines i cv out lg rule: orphan_loop.induct)
  case (1 isref fname lines i cv out lg)
  show ?case
  proof (cases "i < length lines")
    case False
    with "1.prems" show ?thesis by (simp add: loop_done)
  next
    case True
    note inb = this
    have dr: "drop i lines = lines ! i # drop (Suc i) lines"
      using inb by (simp add: Cons_nth_drop_Suc)
    show ?thesis
    proof (cases "isref (lines ! i)")
      case True
      with inb "1.prems" "1.IH"(1) [OF inb refl True] show ?thesis
        by (simp add: loop_ref dr)
    next
      case nr: False
      show ?thesis
      proof (cases "lacks_tab (lines ! i)")
        case False
        with nr inb "1.prems" "1.IH"(4) [OF inb refl nr False] show ?thesis
          by (simp add: loop_plain dr)
      next
        case lt: True
        then have orp: "orphan isref (lines ! i)" using nr by (simp add: orphan_def)
        show ?thesis
        proof (cases "Suc i < length lines")
          case False
          with inb have "Suc i = length lines" by simp
          with "1.prems"(1) orp show ?thesis by (simp add: loop_orphan_last)
        next
          case nx: True
          then have nx': "i + 1 < length lines" by simp
          have nref: "\<not> isref (lines ! Suc i)" using "1.prems"(2) nx orp by blast
          have dr2: "drop (Suc i) lines = lines ! Suc i # drop (Suc (Suc i)) lines"
            using nx by (simp add: Cons_nth_drop_Suc)
          show ?thesis
          proof (cases cv)
            case None
            with "1.prems"(1) nx orp show ?thesis by (simp add: loop_orphan_None)
          next
            case (Some v)
            show ?thesis
            proof (cases "startswith_Ps v")
              case True
              from "1.IH"(2) [OF inb refl nr lt nx' refl Some True] "1.prems" nx orp Some True nr nref
              show ?thesis by (simp add: loop_orphan_down dr dr2)
            next
              case nps: False
              show ?thesis
              proof (cases "out = []")
                case True
                with "1.prems"(1) nx orp Some nps show ?thesis by (simp add: loop_orphan_up_empty)
              next
                case False
                from "1.IH"(3) [OF inb refl nr lt nx' refl Some nps False] "1.prems" nx orp Some nps nr False
                show ?thesis by (simp add: loop_orphan_up dr)
              qed
            qed
          qed
        qed
      qed
    qed
  qed
qed


lemma loop_skip_no_orphan:
  "\<forall>l\<in>set pre. \<not> orphan isref l \<Longrightarrow>
   orphan_loop isref file (seen @ pre @ rest) (length seen) cv out lg =
   orphan_loop isref file (seen @ pre @ rest) (length seen + length pre)
     (last_ref isref cv pre) (out @ pre) lg"
proof (induction pre arbitrary: seen cv out)
  case Nil
  then show ?case by simp
next
  case (Cons p ps)
  let ?ls = "seen @ (p # ps) @ rest"
  let ?cv = "if isref p then Some p else cv"
  have at: "length seen < length ?ls" "?ls ! length seen = p" by simp_all
  have "orphan_loop isref file ?ls (length seen) cv out lg =
        orphan_loop isref file ?ls (Suc (length seen)) ?cv (out @ [p]) lg"
  proof (cases "isref p")
    case True
    then show ?thesis
      using loop_ref [of "length seen" ?ls isref "file" cv out lg] at by simp
  next
    case False
    then have "\<not> lacks_tab p" using Cons.prems by (simp add: orphan_def)
    then show ?thesis
      using False loop_plain [of "length seen" ?ls isref "file" cv out lg] at by simp
  qed
  also have "\<dots> = orphan_loop isref file ((seen @ [p]) @ ps @ rest) (length (seen @ [p])) ?cv
                     (out @ [p]) lg"
    by simp
  also have "\<dots> = orphan_loop isref file ((seen @ [p]) @ ps @ rest)
                     (length (seen @ [p]) + length ps) (last_ref isref ?cv ps) ((out @ [p]) @ ps) lg"
    using Cons.prems by (intro Cons.IH) simp
  finally show ?case by simp
qed

lemma loop_no_orphan_end:
  assumes "\<forall>l\<in>set tail. \<not> orphan isref l"
  shows "orphan_loop isref file (seen @ tail) (length seen) cv out lg =
         Inr (last_ref isref cv tail, out @ tail, lg)"
  using loop_skip_no_orphan [OF assms, of "file" seen "[]" cv out lg]
  by (simp add: loop_done)

section \<open>Claims about the orphan scan\<close>

lemmas scan_eval =
  orphan_loop.simps ref_string_match_def is_alnum_def is_digit_def lacks_tab_def orphan_def
  passes_def startswith_Ps_def line_before_def repair_orphans_def Let_def

subsection \<open>C3\<close>



subsection \<open>C4\<close>




subsection \<open>C8\<close>

text \<open>
  C8 as stated fails: an orphan that is the last line of its file is not scanned at all
  when the line before it is an orphan in a Psalms context, whose downward merge consumes
  it. Here \<open>ALM\<close> is such a last line, and the scan returns.
\<close>

theorem last_line_orphan_counterexample:
  "orphan ref_string_match (last [''Ps 18:40'', ''PS'', ''ALM''])
   \<and> repair_orphans ref_string_match [(''20.Psalms.par'', [''Ps 18:40'', ''PS'', ''ALM''])] [] =
     Inr ([(''20.Psalms.par'', [''Ps 18:40'', ''PSALM''])],
          [Msg ''patching orphaned lines (see code for description)...'',
           Patching ''20.Psalms.par'' 1 (Some ''Ps 18:40'') ''Ps 18:40'' ''PS'' ''ALM'',
           Msg (tab # ''done'')])"
  by (simp add: scan_eval)

text \<open>
  C8, amended. When the scan reaches the last line of a file and that line is an orphan,
  it raises IndexError while it builds the log message, which reads the line after the
  current one. This happens in every verse context (none yet, Psalms or another book):
  the message is built before the merge direction is tested, so in a Psalms context the
  downward merge is not reached.
\<close>

theorem orphan_at_last_line_raises:
  assumes "i + 1 = length lines" and "orphan isref (lines ! i)"
  shows "orphan_loop isref file lines i current_verse out lg = Inl IndexError"
  using assms loop_orphan_last [of i lines isref "file" current_verse out lg] by simp

theorem orphan_at_last_line_raises_witness:
  "1 + 1 = length [''Ps 18:40'', ''ALM'']
   \<and> orphan ref_string_match ([''Ps 18:40'', ''ALM''] ! 1)
   \<and> orphan_loop ref_string_match ''20.Psalms.par'' [''Ps 18:40'', ''ALM''] 1
        (Some ''Ps 18:40'') [''Ps 18:40''] [] = Inl IndexError
   \<and> repair_orphans ref_string_match [(''20.Psalms.par'', [''Ps 18:40'', ''ALM''])] [] =
        Inl IndexError"
proof -
  have h1: "1 + 1 = length [''Ps 18:40'', ''ALM'']" by simp
  have h2: "orphan ref_string_match ([''Ps 18:40'', ''ALM''] ! 1)" by (simp add: scan_eval)
  have r: "orphan_loop ref_string_match ''20.Psalms.par'' [''Ps 18:40'', ''ALM''] 1
             (Some ''Ps 18:40'') [''Ps 18:40''] lg = Inl IndexError" for lg
    by (rule orphan_at_last_line_raises [OF h1 h2])
  have "repair_orphans ref_string_match [(''20.Psalms.par'', [''Ps 18:40'', ''ALM''])] [] =
        Inl IndexError"
    by (simp add: scan_eval)
  with h1 h2 r show ?thesis by simp
qed

subsection \<open>C9\<close>

text \<open>
  C9 as stated fails when the orphan is the last line of its file: the IndexError of the
  log message comes before the direction test.
\<close>

theorem orphan_before_reference_counterexample:
  "repair_orphans ref_string_match [(''f.par'', [''DANIHL''])] [] = Inl IndexError"
  by (simp add: scan_eval)

text \<open>
  C9, amended. If the first line of the whole stage that is not passed through unchanged
  is an orphan, so that no reference line has been seen in any file so far, and the orphan
  is followed by a further line in its file, the direction test calls \<open>startswith\<close> on
  \<open>None\<close> and the stage ends with AttributeError. (If the orphan is the last line of its
  file, the IndexError of the log message comes first.)
\<close>

theorem orphan_before_reference_raises:
  assumes "\<forall>ls\<in>snd ` set before. \<forall>l\<in>set ls. passes isref l"
    and "\<forall>l\<in>set pre. passes isref l" and "orphan isref orph"
  shows "repair_orphans isref (before @ (file, pre @ orph # nxt # rest) # after) lg =
         Inl AttributeError"
proof -
  have files: "orphan_files isref before None lg' = Inr (None, before, lg')" for lg'
    using assms(1)
  proof (induction before)
    case Nil
    then show ?case by simp
  next
    case (Cons fl before)
    obtain f ls where fl: "fl = (f, ls)" by (cases fl)
    have "\<forall>l\<in>set ls. passes isref l" using Cons.prems fl by simp
    then have "orphan_loop isref f ls 0 None [] lg' = Inr (None, ls, lg')"
      using loop_skip_passes [of ls isref f "[]" "[]" None "[]" lg'] by (simp add: loop_done)
    moreover have "orphan_files isref before None lg' = Inr (None, before, lg')"
      using Cons by simp
    ultimately show ?case by (simp add: fl)
  qed
  let ?ls = "pre @ orph # nxt # rest"
  have "orphan_loop isref file ?ls 0 None [] lg' =
        orphan_loop isref file ?ls (length pre) None pre lg'" for lg'
    using assms(2) loop_skip_passes [of pre isref "file" "[]" "orph # nxt # rest" None "[]" lg']
    by simp
  also have "orphan_loop isref file ?ls (length pre) None pre lg' = Inl AttributeError" for lg'
    using assms(3) by (intro loop_orphan_None) simp_all
  finally have "orphan_loop isref file ?ls 0 None [] lg' = Inl AttributeError" for lg' .
  then show ?thesis
    by (simp add: repair_orphans_def orphan_files_append files)
qed

theorem orphan_before_reference_raises_witness:
  "passes ref_string_match (''a'' @ [tab] @ ''b'') \<and> passes ref_string_match ''''
   \<and> orphan ref_string_match ''DANIHL''
   \<and> repair_orphans ref_string_match
       ([(''e.par'', [''a'' @ [tab] @ ''b''])] @
        (''f.par'', [''''] @ ''DANIHL'' # ''Dan 6:18'' # []) # []) [] = Inl AttributeError"
proof -
  have h1: "\<forall>ls\<in>snd ` set [(''e.par'', [''a'' @ [tab] @ ''b''])]. \<forall>l\<in>set ls. passes ref_string_match l"
    by (simp add: scan_eval)
  have h2: "\<forall>l\<in>set ['''']. passes ref_string_match l" by (simp add: scan_eval)
  have h3: "orphan ref_string_match ''DANIHL''" by (simp add: scan_eval)
  from orphan_before_reference_raises [OF h1 h2 h3]
  show ?thesis using h1 h2 h3 by simp
qed

subsection \<open>C10\<close>

text \<open>
  C10 as stated fails when a reference line of the previous file directly follows an
  orphan in a Psalms context: the downward merge consumes it, it never becomes the
  context, and the orphan of the next file takes its direction from an earlier reference
  line. Below the last reference line of the first file is \<open>Gen 1:2\<close>, which does not
  start with \<open>Ps\<close>, yet \<open>ORPH\<close> in the second file is merged downward.
\<close>

theorem last_reference_line_counterexample:
  "last (filter ref_string_match [''Ps 1:1'', ''PS'', ''Gen 1:2'', ''a'' @ [tab] @ ''b'']) = ''Gen 1:2''
   \<and> \<not> startswith_Ps ''Gen 1:2''
   \<and> orphan_files ref_string_match
       [(''20.Psalms.par'', [''Ps 1:1'', ''PS'', ''Gen 1:2'', ''a'' @ [tab] @ ''b'']),
        (''27.Sirach.par'', [''x'' @ [tab] @ ''y'', ''ORPH'', ''z'' @ [tab] @ ''w''])] None [] =
     Inr (Some ''Ps 1:1'',
          [(''20.Psalms.par'', [''Ps 1:1'', ''PSGen 1:2'', ''a'' @ [tab] @ ''b'']),
           (''27.Sirach.par'', [''x'' @ [tab] @ ''y'', ''ORPH'' @ ''z'' @ [tab] @ ''w''])],
          [Patching ''20.Psalms.par'' 1 (Some ''Ps 1:1'') ''Ps 1:1'' ''PS'' ''Gen 1:2'',
           Patching ''27.Sirach.par'' 1 (Some ''Ps 1:1'') (''x'' @ [tab] @ ''y'') ''ORPH''
             (''z'' @ [tab] @ ''w'')])"
  by (simp add: scan_eval)

text \<open>
  C10, amended. \<open>current_verse\<close> is set once for the whole corpus and is not reset
  between files: when the files up to and including \<open>f1\<close> have been scanned, the next
  file \<open>f2\<close> is scanned from the context \<open>cv1\<close> they leave behind, and an orphan of
  \<open>f2\<close> that comes before any reference line of \<open>f2\<close> (after lines that are passed
  through, and followed by a further line) takes its direction from \<open>cv1\<close>: downward when
  \<open>cv1\<close> starts with \<open>Ps\<close>, upward otherwise, AttributeError when there is no context
  yet. \<open>cv1\<close> is the last reference line of \<open>f1\<close> when \<open>f1\<close> has a reference line and
  none of its reference lines directly follows an orphan. When the lines after the orphan
  hold no further orphan, the scan of \<open>f2\<close> returns the lines stated.
\<close>

theorem verse_context_carried_across_files:
  assumes "orphan_files isref (before @ [(f1, prev)]) cv0 lg = Inr (cv1, scanned, lg1)"
    and "\<forall>l\<in>set pre. passes isref l" and "orphan isref orph"
    and "lines = pre @ orph # nxt # rest"
  shows "((\<forall>j. Suc j < length prev \<and> orphan isref (prev ! j) \<longrightarrow> \<not> isref (prev ! Suc j))
          \<and> filter isref prev \<noteq> []
        \<longrightarrow> cv1 = Some (last (filter isref prev)))
     \<and> orphan_files isref (before @ (f1, prev) # (f2, lines) # more) cv0 lg =
         (case orphan_loop isref f2 lines 0 cv1 [] lg1 of
            Inl e \<Rightarrow> Inl e
          | Inr (cv2, out2, lg2) \<Rightarrow>
              (case orphan_files isref more cv2 lg2 of
                 Inl e \<Rightarrow> Inl e
               | Inr (cv3, more', lg3) \<Rightarrow> Inr (cv3, scanned @ (f2, out2) # more', lg3)))
     \<and> orphan_loop isref f2 lines 0 cv1 [] lg1 =
         (case cv1 of
            None \<Rightarrow> Inl AttributeError
          | Some v \<Rightarrow>
              if startswith_Ps v then
                orphan_loop isref f2 lines (length pre + 2) cv1 (pre @ [orph @ nxt])
                  (lg1 @ [Patching f2 (length pre) cv1 (line_before lines (length pre)) orph nxt])
              else if pre = [] then Inl IndexError
              else
                orphan_loop isref f2 lines (length pre + 1) cv1 (butlast pre @ [last pre @ orph])
                  (lg1 @ [Patching f2 (length pre) cv1 (line_before lines (length pre)) orph nxt]))
     \<and> ((\<forall>l\<in>set (nxt # rest). \<not> orphan isref l) \<and> pre \<noteq> []
        \<longrightarrow> orphan_loop isref f2 lines 0 cv1 [] lg1 =
            (case cv1 of
               None \<Rightarrow> Inl AttributeError
             | Some v \<Rightarrow>
                 if startswith_Ps v then
                   Inr (last_ref isref cv1 rest, pre @ [orph @ nxt] @ rest,
                        lg1 @ [Patching f2 (length pre) cv1 (line_before lines (length pre))
                                 orph nxt])
                 else
                   Inr (last_ref isref cv1 (nxt # rest),
                        butlast pre @ [last pre @ orph] @ nxt # rest,
                        lg1 @ [Patching f2 (length pre) cv1 (line_before lines (length pre))
                                 orph nxt])))"
proof -
  from assms(1) obtain cvb before' lgb out1
    where b: "orphan_files isref before cv0 lg = Inr (cvb, before', lgb)"
      and l: "orphan_loop isref f1 prev 0 cvb [] lgb = Inr (cv1, out1, lg1)"
    by (auto simp: orphan_files_append split: sum.splits prod.splits)
  have ctx: "cv1 = Some (last (filter isref prev))"
    if h: "\<forall>j. Suc j < length prev \<and> orphan isref (prev ! j) \<longrightarrow> \<not> isref (prev ! Suc j)"
      and ne: "filter isref prev \<noteq> []"
  proof -
    have "cv1 = last_ref isref cvb (drop 0 prev)" using l h by (rule loop_context)
    then show ?thesis using ne by (simp add: last_ref_filter)
  qed
  have split: "before @ (f1, prev) # (f2, lines) # more =
               (before @ [(f1, prev)]) @ ((f2, lines) # more)"
    by simp
  have files: "orphan_files isref (before @ (f1, prev) # (f2, lines) # more) cv0 lg =
         (case orphan_loop isref f2 lines 0 cv1 [] lg1 of
            Inl e \<Rightarrow> Inl e
          | Inr (cv2, out2, lg2) \<Rightarrow>
              (case orphan_files isref more cv2 lg2 of
                 Inl e \<Rightarrow> Inl e
               | Inr (cv3, more', lg3) \<Rightarrow> Inr (cv3, scanned @ (f2, out2) # more', lg3)))"
    unfolding split orphan_files_append [of isref "before @ [(f1, prev)]"] assms(1)
    by (simp split: sum.splits prod.splits)
  have len: "Suc (length pre) < length lines" and at: "lines ! length pre = orph"
    and nx: "lines ! Suc (length pre) = nxt"
    using assms(4) by (simp_all add: nth_append)
  have orp: "orphan isref (lines ! length pre)" using at assms(3) by simp
  let ?lg = "lg1 @ [Patching f2 (length pre) cv1 (line_before lines (length pre)) orph nxt]"
  have skip: "orphan_loop isref f2 lines 0 cv1 [] lg1 =
              orphan_loop isref f2 lines (length pre) cv1 pre lg1"
    using assms(2,4) loop_skip_passes [of pre isref f2 "[]" "orph # nxt # rest" cv1 "[]" lg1]
    by simp
  have dir: "orphan_loop isref f2 lines (length pre) cv1 pre lg1 =
         (case cv1 of
            None \<Rightarrow> Inl AttributeError
          | Some v \<Rightarrow>
              if startswith_Ps v then
                orphan_loop isref f2 lines (length pre + 2) cv1 (pre @ [orph @ nxt]) ?lg
              else if pre = [] then Inl IndexError
              else
                orphan_loop isref f2 lines (length pre + 1) cv1 (butlast pre @ [last pre @ orph])
                  ?lg)"
  proof (cases cv1)
    case None
    then show ?thesis using loop_orphan_None [OF len orp, of f2 pre lg1] by simp
  next
    case (Some v)
    show ?thesis
    proof (cases "startswith_Ps v")
      case True
      then show ?thesis
        using loop_orphan_down [OF len orp True, of f2 pre lg1] by (simp add: Some at nx)
    next
      case nps: False
      show ?thesis
      proof (cases "pre = []")
        case True
        then show ?thesis
          using loop_orphan_up_empty [OF len orp nps, of f2 lg1] nps by (simp add: Some)
      next
        case False
        then show ?thesis
          using loop_orphan_up [OF len orp nps False, of f2 lg1] nps by (simp add: Some at nx)
      qed
    qed
  qed
  have whole: "orphan_loop isref f2 lines 0 cv1 [] lg1 =
            (case cv1 of
               None \<Rightarrow> Inl AttributeError
             | Some v \<Rightarrow>
                 if startswith_Ps v then
                   Inr (last_ref isref cv1 rest, pre @ [orph @ nxt] @ rest, ?lg)
                 else
                   Inr (last_ref isref cv1 (nxt # rest),
                        butlast pre @ [last pre @ orph] @ nxt # rest, ?lg))"
    if no: "\<forall>l\<in>set (nxt # rest). \<not> orphan isref l" and ne: "pre \<noteq> []"
  proof (cases cv1)
    case None
    then show ?thesis using skip dir by simp
  next
    case (Some v)
    have down: "orphan_loop isref f2 lines (length pre + 2) cv1 out l' =
                Inr (last_ref isref cv1 rest, out @ rest, l')" for out l'
    proof -
      have "orphan_loop isref f2 ((pre @ [orph, nxt]) @ rest) (length (pre @ [orph, nxt]))
              cv1 out l' = Inr (last_ref isref cv1 rest, out @ rest, l')"
        using no by (intro loop_no_orphan_end) simp
      then show ?thesis using assms(4) by simp
    qed
    have up: "orphan_loop isref f2 lines (length pre + 1) cv1 out l' =
              Inr (last_ref isref cv1 (nxt # rest), out @ nxt # rest, l')" for out l'
    proof -
      have "orphan_loop isref f2 ((pre @ [orph]) @ nxt # rest) (length (pre @ [orph]))
              cv1 out l' = Inr (last_ref isref cv1 (nxt # rest), out @ nxt # rest, l')"
        using no by (intro loop_no_orphan_end) simp
      then show ?thesis using assms(4) by simp
    qed
    show ?thesis
    proof (cases "startswith_Ps v")
      case True
      have "orphan_loop isref f2 lines 0 cv1 [] lg1 =
            orphan_loop isref f2 lines (length pre + 2) cv1 (pre @ [orph @ nxt]) ?lg"
        using skip dir Some True by simp
      also have "\<dots> = Inr (last_ref isref cv1 rest, (pre @ [orph @ nxt]) @ rest, ?lg)"
        by (rule down)
      finally show ?thesis using Some True by simp
    next
      case False
      have "orphan_loop isref f2 lines 0 cv1 [] lg1 =
            orphan_loop isref f2 lines (length pre + 1) cv1 (butlast pre @ [last pre @ orph]) ?lg"
        using skip dir Some False ne by simp
      also have "\<dots> = Inr (last_ref isref cv1 (nxt # rest),
                           (butlast pre @ [last pre @ orph]) @ nxt # rest, ?lg)"
        by (rule up)
      finally show ?thesis using Some False by simp
    qed
  qed
  show ?thesis using ctx files skip dir whole by simp
qed

theorem verse_context_carried_across_files_witness:
  "orphan_files ref_string_match
     [(''01.Genesis.par'', [''Gen 1:1'', ''c'' @ [tab] @ ''d'']),
      (''20.Psalms.par'', [''Ps 1:1'', ''a'' @ [tab] @ ''b'']),
      (''27.Sirach.par'', [''x'' @ [tab] @ ''y'', ''ORPH'', ''z'' @ [tab] @ ''w''])] None [] =
   Inr (Some ''Ps 1:1'',
        [(''01.Genesis.par'', [''Gen 1:1'', ''c'' @ [tab] @ ''d'']),
         (''20.Psalms.par'', [''Ps 1:1'', ''a'' @ [tab] @ ''b'']),
         (''27.Sirach.par'', [''x'' @ [tab] @ ''y'', ''ORPH'' @ ''z'' @ [tab] @ ''w''])],
        [Patching ''27.Sirach.par'' 1 (Some ''Ps 1:1'') (''x'' @ [tab] @ ''y'') ''ORPH''
           (''z'' @ [tab] @ ''w'')])
   \<and> orphan_files ref_string_match
     [(''20.Psalms.par'', [''Ps 1:1'', ''a'' @ [tab] @ ''b'']),
      (''01.Genesis.par'', [''Gen 1:1'', ''c'' @ [tab] @ ''d'']),
      (''27.Sirach.par'', [''x'' @ [tab] @ ''y'', ''ORPH'', ''z'' @ [tab] @ ''w''])] None [] =
   Inr (Some ''Gen 1:1'',
        [(''20.Psalms.par'', [''Ps 1:1'', ''a'' @ [tab] @ ''b'']),
         (''01.Genesis.par'', [''Gen 1:1'', ''c'' @ [tab] @ ''d'']),
         (''27.Sirach.par'', [''x'' @ [tab] @ ''y'' @ ''ORPH'', ''z'' @ [tab] @ ''w''])],
        [Patching ''27.Sirach.par'' 1 (Some ''Gen 1:1'') (''x'' @ [tab] @ ''y'') ''ORPH''
           (''z'' @ [tab] @ ''w'')])"
proof -
  let ?G = "(''01.Genesis.par'', [''Gen 1:1'', ''c'' @ [tab] @ ''d''])"
  let ?prev = "[''Ps 1:1'', ''a'' @ [tab] @ ''b'']"
  let ?S = "[''x'' @ [tab] @ ''y'', ''ORPH'', ''z'' @ [tab] @ ''w'']"
  have h1: "orphan_files ref_string_match ([?G] @ [(''20.Psalms.par'', ?prev)]) None [] =
            Inr (Some ''Ps 1:1'', [?G, (''20.Psalms.par'', ?prev)], [])"
    by (simp add: scan_eval)
  have h2: "\<forall>j. Suc j < length ?prev \<and> orphan ref_string_match (?prev ! j)
                \<longrightarrow> \<not> ref_string_match (?prev ! Suc j)"
    by (simp add: scan_eval)
  have h3: "filter ref_string_match ?prev \<noteq> []" by (simp add: scan_eval)
  have h4: "\<forall>l\<in>set [''x'' @ [tab] @ ''y'']. passes ref_string_match l"
    by (simp add: scan_eval)
  have h5: "orphan ref_string_match ''ORPH''" by (simp add: scan_eval)
  have h6: "?S = [''x'' @ [tab] @ ''y''] @ ''ORPH'' # (''z'' @ [tab] @ ''w'') # []" by simp
  note t = verse_context_carried_across_files [OF h1 h4 h5 h6, of "''27.Sirach.par''" "[]"]
  have first: "orphan_files ref_string_match
     [?G, (''20.Psalms.par'', ?prev), (''27.Sirach.par'', ?S)] None [] =
   Inr (Some ''Ps 1:1'',
        [?G, (''20.Psalms.par'', ?prev),
         (''27.Sirach.par'', [''x'' @ [tab] @ ''y'', ''ORPH'' @ ''z'' @ [tab] @ ''w''])],
        [Patching ''27.Sirach.par'' 1 (Some ''Ps 1:1'') (''x'' @ [tab] @ ''y'') ''ORPH''
           (''z'' @ [tab] @ ''w'')])"
    using t h2 h3 by (simp add: scan_eval)
  have second: "orphan_files ref_string_match
     [(''20.Psalms.par'', ?prev), ?G, (''27.Sirach.par'', ?S)] None [] =
   Inr (Some ''Gen 1:1'',
        [(''20.Psalms.par'', ?prev), ?G,
         (''27.Sirach.par'', [''x'' @ [tab] @ ''y'' @ ''ORPH'', ''z'' @ [tab] @ ''w''])],
        [Patching ''27.Sirach.par'' 1 (Some ''Gen 1:1'') (''x'' @ [tab] @ ''y'') ''ORPH''
           (''z'' @ [tab] @ ''w'')])"
    by (simp add: scan_eval)
  from first second show ?thesis by simp
qed

section \<open>Claims about the manual edits and the block excisions\<close>

subsection \<open>C5\<close>





subsection \<open>C6\<close>

text \<open>The two repairs of the Psalms file leave the entry of the Exodus file alone.\<close>

lemma psalms_repairs_exodus:
  "psalms_orphan_repair pss c1 lg1 = Inr (c2, lg2) \<Longrightarrow>
   psalms_corruption_repair pss c2 lg2 = Inr (c3, lg3) \<Longrightarrow>
   map_of c3 ''02.Exodus.par'' = map_of c1 ''02.Exodus.par''"
  by (auto simp: psalms_orphan_repair_def psalms_corruption_repair_def update_conv' Let_def
           split: if_splits)

text \<open>
  C6. Each of the three block excisions compares one anchor line with a fixed string. When
  the anchor line exists and differs from it, the repair returns the corpus untouched and
  appends its warning to the log. For the Exodus file the untouched list is also what the
  whole stage hands on, and when all three anchors are altered the stage returns the
  corpus as it was, with the three warnings.
\<close>

theorem altered_anchor_skips_excision:
  "(map_of file2lines ''02.Exodus.par'' = Some exod \<and> 16284 < length exod
      \<and> exod ! 16284 \<noteq> ''Exod 1:10''
    \<longrightarrow> exodus_repair file2lines lg =
          Inr (file2lines,
               lg @ [Msg ''**WARNING: SKIPPING EXODUS CORRUPTION REPAIR DUE TO CHANGED LINE NUMBERS; see code''])
        \<and> (\<forall>c' lg'. other_edits file2lines lg = Inr (c', lg')
              \<longrightarrow> map_of c' ''02.Exodus.par'' = Some exod))
   \<and> (10848 < length pss \<and> pss ! 10848 \<noteq> ''MTR''
    \<longrightarrow> psalms_orphan_repair pss file2lines lg =
        Inr (file2lines,
             lg @ [Msg ''**WARNING: SKIPPING PSALMS ORPHAN REPAIR DUE TO CHANGED LINE NUMBERS; see code'']))
   \<and> (2459 < length pss \<and> pss ! 2459 \<noteq> ''Ps 18:40''
    \<longrightarrow> psalms_corruption_repair pss file2lines lg =
        Inr (file2lines,
             lg @ [Msg ''**WARNING: SKIPPING PSALMS ORPHAN REPAIR #2 DUE TO CHANGED LINE NUMBERS; see code'']))
   \<and> (map_of file2lines ''02.Exodus.par'' = Some exod \<and> 16284 < length exod
      \<and> exod ! 16284 \<noteq> ''Exod 1:10''
      \<and> map_of file2lines ''20.Psalms.par'' = Some pss \<and> 10848 < length pss
      \<and> pss ! 10848 \<noteq> ''MTR'' \<and> pss ! 2459 \<noteq> ''Ps 18:40''
    \<longrightarrow> other_edits file2lines lg =
        Inr (file2lines,
             lg @ [Msg ''**WARNING: SKIPPING EXODUS CORRUPTION REPAIR DUE TO CHANGED LINE NUMBERS; see code'',
                   Msg ''**WARNING: SKIPPING PSALMS ORPHAN REPAIR DUE TO CHANGED LINE NUMBERS; see code'',
                   Msg ''**WARNING: SKIPPING PSALMS ORPHAN REPAIR #2 DUE TO CHANGED LINE NUMBERS; see code'']))"
proof -
  let ?w1 = "Msg ''**WARNING: SKIPPING EXODUS CORRUPTION REPAIR DUE TO CHANGED LINE NUMBERS; see code''"
  let ?w2 = "Msg ''**WARNING: SKIPPING PSALMS ORPHAN REPAIR DUE TO CHANGED LINE NUMBERS; see code''"
  let ?w3 = "Msg ''**WARNING: SKIPPING PSALMS ORPHAN REPAIR #2 DUE TO CHANGED LINE NUMBERS; see code''"
  have ex: "exodus_repair c l = Inr (c, l @ [?w1])"
    if "map_of c ''02.Exodus.par'' = Some exod" "16284 < length exod"
       "exod ! 16284 \<noteq> ''Exod 1:10''" for c l
    using that by (simp add: exodus_repair_def)
  have p1: "psalms_orphan_repair pss c l = Inr (c, l @ [?w2])"
    if "10848 < length pss" "pss ! 10848 \<noteq> ''MTR''" for c l
    using that by (simp add: psalms_orphan_repair_def)
  have p2: "psalms_corruption_repair pss c l = Inr (c, l @ [?w3])"
    if "2459 < length pss" "pss ! 2459 \<noteq> ''Ps 18:40''" for c l
    using that by (simp add: psalms_corruption_repair_def)
  have frame: "map_of c' ''02.Exodus.par'' = Some exod"
    if a: "map_of file2lines ''02.Exodus.par'' = Some exod" "16284 < length exod"
          "exod ! 16284 \<noteq> ''Exod 1:10''"
      and run: "other_edits file2lines lg = Inr (c', lg')" for c' lg'
  proof -
    from run obtain pss' c2 lg2
      where "psalms_orphan_repair pss' file2lines (lg @ [?w1]) = Inr (c2, lg2)"
        and "psalms_corruption_repair pss' c2 lg2 = Inr (c', lg')"
      by (auto simp: other_edits_def ex [OF a] split: option.splits sum.splits)
    then have "map_of c' ''02.Exodus.par'' = map_of file2lines ''02.Exodus.par''"
      by (rule psalms_repairs_exodus)
    then show ?thesis using a(1) by simp
  qed
  have stage: "other_edits file2lines lg = Inr (file2lines, lg @ [?w1, ?w2, ?w3])"
    if "map_of file2lines ''02.Exodus.par'' = Some exod" "16284 < length exod"
       "exod ! 16284 \<noteq> ''Exod 1:10''" "map_of file2lines ''20.Psalms.par'' = Some pss"
       "10848 < length pss" "pss ! 10848 \<noteq> ''MTR''" "pss ! 2459 \<noteq> ''Ps 18:40''"
    using that by (simp add: other_edits_def ex p1 p2)
  show ?thesis using ex p1 p2 frame stage by blast
qed

theorem altered_anchor_skips_excision_witness:
  "other_edits
     [(''02.Exodus.par'', replicate 16284 [] @ [''Exod 1:11'']),
      (''20.Psalms.par'', replicate 2459 [] @ [''Ps 18:41''] @ replicate 8388 [] @ [''MTRX''])] [] =
   Inr ([(''02.Exodus.par'', replicate 16284 [] @ [''Exod 1:11'']),
         (''20.Psalms.par'', replicate 2459 [] @ [''Ps 18:41''] @ replicate 8388 [] @ [''MTRX''])],
        [Msg ''**WARNING: SKIPPING EXODUS CORRUPTION REPAIR DUE TO CHANGED LINE NUMBERS; see code'',
         Msg ''**WARNING: SKIPPING PSALMS ORPHAN REPAIR DUE TO CHANGED LINE NUMBERS; see code'',
         Msg ''**WARNING: SKIPPING PSALMS ORPHAN REPAIR #2 DUE TO CHANGED LINE NUMBERS; see code''])"
proof -
  let ?exod = "replicate 16284 [] @ [''Exod 1:11'']"
  let ?pss = "replicate 2459 [] @ [''Ps 18:41''] @ replicate 8388 [] @ [''MTRX'']"
  let ?c = "[(''02.Exodus.par'', ?exod), (''20.Psalms.par'', ?pss)]"
  have e: "map_of ?c ''02.Exodus.par'' = Some ?exod \<and> 16284 < length ?exod
           \<and> ?exod ! 16284 \<noteq> ''Exod 1:10''"
    by (simp add: nth_append)
  have p1: "10848 < length ?pss \<and> ?pss ! 10848 \<noteq> ''MTR''"
    by (simp add: nth_append)
  have p2: "2459 < length ?pss \<and> ?pss ! 2459 \<noteq> ''Ps 18:40''"
    by (simp add: nth_append)
  note t = altered_anchor_skips_excision [of ?c ?exod _ ?pss]
  have "exodus_repair ?c lg = Inr (?c,
             lg @ [Msg ''**WARNING: SKIPPING EXODUS CORRUPTION REPAIR DUE TO CHANGED LINE NUMBERS; see code''])" for lg
    using t [of lg] e by blast
  moreover have "psalms_orphan_repair ?pss ?c lg = Inr (?c,
             lg @ [Msg ''**WARNING: SKIPPING PSALMS ORPHAN REPAIR DUE TO CHANGED LINE NUMBERS; see code''])" for lg
    using t [of lg] p1 by blast
  moreover have "psalms_corruption_repair ?pss ?c lg = Inr (?c,
             lg @ [Msg ''**WARNING: SKIPPING PSALMS ORPHAN REPAIR #2 DUE TO CHANGED LINE NUMBERS; see code''])" for lg
    using t [of lg] p2 by blast
  moreover have "map_of ?c ''20.Psalms.par'' = Some ?pss" by simp
  ultimately show ?thesis by (simp add: other_edits_def)
qed

subsection \<open>C2\<close>

text \<open>
  When both anchors of the Psalms file pass, the second repair is computed from \<open>pss\<close>,
  the list read before the first repair, and its result replaces the entry that the first
  repair has just written.
\<close>

lemma psalms_repairs_both:
  assumes "map_of file2lines ''20.Psalms.par'' = Some pss" and "10850 < length pss"
    and "pss ! 10848 = ''MTR''" and "pss ! 2459 = ''Ps 18:40''"
  shows "(case psalms_orphan_repair pss file2lines lg of
            Inl e \<Rightarrow> Inl e
          | Inr (c2, lg2) \<Rightarrow> psalms_corruption_repair pss c2 lg2) =
         Inr (AList.update ''20.Psalms.par'' (take 2456 pss @ [pss ! 2457] @ drop 2460 pss)
                file2lines,
              lg @ [Msg ''patching double-orphaned lines in lines 10849-10851 of 20.Psalms.par (Ps 68:31)'',
                    Msg (tab # ''done''),
                    Msg ''patching corrupt lines 2457-2461 in 20.Psalms.par...'',
                    Msg (tab # ''done'')])"
  using assms by (simp add: psalms_orphan_repair_def psalms_corruption_repair_def Let_def)

text \<open>
  C2 fails on the code. In the Psalms file below both anchors pass: line 2459 is
  \<open>Ps 18:40\<close> and lines 10848 to 10850 are \<open>MTR\<close>, \<open>A\<close>, \<open>B\<close>. Both repairs report
  that they are done, yet the corpus handed to the next stage does not hold the merged
  line \<open>MTRAB\<close>: the three lines are still apart, three positions further up. The
  Exodus file, whose anchor is altered, is left as it is.
\<close>

theorem psalms_merge_lost_by_second_repair:
  "other_edits
     [(''02.Exodus.par'', replicate 16285 ''e''),
      (''20.Psalms.par'',
       replicate 2456 ''x'' @ ['''', ''#'', '''', ''Ps 18:40''] @ replicate 8388 ''y''
         @ [''MTR'', ''A'', ''B''])] [] =
   Inr ([(''02.Exodus.par'', replicate 16285 ''e''),
         (''20.Psalms.par'',
          replicate 2456 ''x'' @ [''#''] @ replicate 8388 ''y'' @ [''MTR'', ''A'', ''B''])],
        [Msg ''**WARNING: SKIPPING EXODUS CORRUPTION REPAIR DUE TO CHANGED LINE NUMBERS; see code'',
         Msg ''patching double-orphaned lines in lines 10849-10851 of 20.Psalms.par (Ps 68:31)'',
         Msg (tab # ''done''),
         Msg ''patching corrupt lines 2457-2461 in 20.Psalms.par...'',
         Msg (tab # ''done'')])"
proof -
  let ?exod = "replicate 16285 ''e''"
  let ?pss = "replicate 2456 ''x'' @ ['''', ''#'', '''', ''Ps 18:40''] @ replicate 8388 ''y''
                @ [''MTR'', ''A'', ''B'']"
  let ?c = "[(''02.Exodus.par'', ?exod), (''20.Psalms.par'', ?pss)]"
  have ex: "exodus_repair ?c [] = Inr (?c,
      [Msg ''**WARNING: SKIPPING EXODUS CORRUPTION REPAIR DUE TO CHANGED LINE NUMBERS; see code''])"
    by (simp add: exodus_repair_def)
  have m: "map_of ?c ''20.Psalms.par'' = Some ?pss" by simp
  have len: "10850 < length ?pss" by simp
  have a1: "?pss ! 10848 = ''MTR''" by (simp add: nth_append)
  have a2: "?pss ! 2459 = ''Ps 18:40''" by (simp add: nth_append)
  have a3: "?pss ! 2457 = ''#''" by (simp add: nth_append)
  have tk: "take 2456 ?pss = replicate 2456 ''x''" by simp
  have dr: "drop 2460 ?pss = replicate 8388 ''y'' @ [''MTR'', ''A'', ''B'']" by simp
  show ?thesis
    unfolding other_edits_def ex
    by (simp only: sum.case prod.case m option.case psalms_repairs_both [OF m len a1 a2] tk dr a3)
       simp
qed

section \<open>The bulk normalizer\<close>

lemma normalize_lines_emitted:
  "fst (normalize_lines isref findall sub file lines cv new lg) =
   new @ concat (map (emitted isref findall sub) lines)"
  by (induction lines arbitrary: cv new lg) (simp_all add: Let_def emitted_def)



lemma length_emitted:
  "length (concat (map (emitted isref findall sub) lines)) = length lines + length (filter isref lines)"
  by (induction lines) (simp_all add: emitted_def)


subsection \<open>The two substitutions\<close>










subsection \<open>C1\<close>

text \<open>
  C1 fails on the code. Each pass of the normalizer appends a reference line once in the
  reference test and once more in the substitution test, so one pass returns as many lines
  more as the file has reference lines, and the two passes of \<open>normalizations\<close> turn the
  one heading \<open>Gen 1:1\<close> into four.
\<close>

theorem normalizer_duplicates_reference_lines:
  "length (fst (normalize_lines isref findall sub file lines [] [] lg)) =
     length lines + length (filter isref lines)
   \<and> fst (bulk_normalize ref_string_match normalizations
            [(''01.Genesis.par'', [''Gen 1:1'', ''B/R)$YT'' @ [tab] @ ''E)N A)RXH=|''])] []) =
     [(''01.Genesis.par'',
       [''Gen 1:1'', ''Gen 1:1'', ''Gen 1:1'', ''Gen 1:1'', ''B/R)$YT'' @ [tab] @ ''E)N A)RXH=|''])]"
proof
  show "length (fst (normalize_lines isref findall sub file lines [] [] lg)) =
          length lines + length (filter isref lines)"
    by (simp add: normalize_lines_emitted length_emitted)
next
  show "fst (bulk_normalize ref_string_match normalizations
            [(''01.Genesis.par'', [''Gen 1:1'', ''B/R)$YT'' @ [tab] @ ''E)N A)RXH=|''])] []) =
     [(''01.Genesis.par'',
       [''Gen 1:1'', ''Gen 1:1'', ''Gen 1:1'', ''Gen 1:1'', ''B/R)$YT'' @ [tab] @ ''E)N A)RXH=|''])]"
    by (simp add: normalizations_def ref_string_match_def is_alnum_def is_digit_def
          findall_tilde_def sub_tilde_def quote_or_caret_def Let_def)
qed

subsection \<open>C7\<close>









end
